theory Spec2Isabelle
  imports Main "HOL-Library.AList"
begin

section \<open>Node status and the fields of a tree node\<close>

text \<open>
  Modelled from the spec: the status enumeration of \<^verbatim>\<open>carebt.nodeStatus\<close>, which the
  navigation nodes import. The spec lists RUNNING, SUSPENDED, SUCCESS and FAILURE, the last
  two being terminal.
\<close>

datatype NodeStatus = RUNNING | SUSPENDED | SUCCESS | FAILURE

definition is_terminal :: "NodeStatus \<Rightarrow> bool" where
  "is_terminal st = (st = SUCCESS \<or> st = FAILURE)"

text \<open>
  The status codes of \<^verbatim>\<open>action_msgs.msg.GoalStatus\<close> that a result callback can receive.
\<close>

datatype GoalStatus =
    STATUS_UNKNOWN | STATUS_ACCEPTED | STATUS_EXECUTING | STATUS_CANCELING
  | STATUS_SUCCEEDED | STATUS_CANCELED | STATUS_ABORTED

text \<open>
  The two fields every node carries and that the code of \<^verbatim>\<open>navigation_nodes.py\<close> writes
  through \<^verbatim>\<open>set_status\<close> and \<^verbatim>\<open>set_contingency_message\<close>.
\<close>

record tree_node =
  status :: NodeStatus
  contingency_message :: string

text \<open>
  Modelled from the spec: the two setters of the node base class, which are plain writes of
  the node's status and of its contingency message.
\<close>

definition set_status :: "NodeStatus \<Rightarrow> 'a tree_node_scheme \<Rightarrow> 'a tree_node_scheme" where
  "set_status st n = n\<lparr>status := st\<rparr>"

definition set_contingency_message :: "string \<Rightarrow> 'a tree_node_scheme \<Rightarrow> 'a tree_node_scheme" where
  "set_contingency_message m n = n\<lparr>contingency_message := m\<rparr>"


section \<open>Planner and path-follower action nodes\<close>

text \<open>
  \<^verbatim>\<open>future.result()\<close>: the status of the goal and, for the planners, the planned path
  \<^verbatim>\<open>result.path\<close>. The type \<open>'p\<close> stands for \<^verbatim>\<open>nav_msgs.msg.Path\<close>.
\<close>

record 'p action_result =
  res_status :: GoalStatus
  res_path :: 'p

text \<open>
  The planner nodes bind \<^verbatim>\<open>?start ?goal => ?path\<close> (or \<^verbatim>\<open>?goals\<close>); the output slot
  \<^verbatim>\<open>_path\<close> is \<^verbatim>\<open>None\<close> until a result arrives.
\<close>

record 'p planner_node = tree_node +
  path :: "'p option"

definition ComputePathToPoseAction_result_callback ::
  "'p action_result \<Rightarrow> 'p planner_node \<Rightarrow> 'p planner_node" where
  "ComputePathToPoseAction_result_callback future n =
     (let st = res_status future in
      if st = STATUS_SUCCEEDED then
        set_status SUCCESS (n\<lparr>path := Some (res_path future)\<rparr>)
      else if st = STATUS_ABORTED then n
      else n)"

definition ComputePathThroughPosesAction_result_callback ::
  "'p action_result \<Rightarrow> 'p planner_node \<Rightarrow> 'p planner_node" where
  "ComputePathThroughPosesAction_result_callback future n =
     (let st = res_status future in
      if st = STATUS_SUCCEEDED then
        set_status SUCCESS (n\<lparr>path := Some (res_path future)\<rparr>)
      else if st = STATUS_ABORTED then n
      else n)"

text \<open>
  \<^verbatim>\<open>FollowPathAction\<close>: the input slot \<^verbatim>\<open>_path\<close>, the last path sent
  (\<^verbatim>\<open>_current_path\<close>) and the goal message of the tick (\<^verbatim>\<open>_goal_msg\<close>, \<^verbatim>\<open>None\<close> when no
  request is to be issued). \<^verbatim>\<open>FollowPath.Goal\<close> has the one field \<^verbatim>\<open>path\<close>.
\<close>

datatype 'p FollowPath_Goal = Goal (goal_path: 'p)

record 'p follow_node = tree_node +
  fpath :: "'p option"
  current_path :: "'p option"
  goal_msg :: "'p FollowPath_Goal option"

definition FollowPathAction_on_tick :: "'p follow_node \<Rightarrow> 'p follow_node" where
  "FollowPathAction_on_tick n =
     (let n1 = n\<lparr>goal_msg := None\<rparr> in
      case fpath n1 of
        None \<Rightarrow> n1
      | Some p \<Rightarrow>
          if current_path n1 \<noteq> fpath n1 then
            n1\<lparr>goal_msg := Some (Goal p), current_path := fpath n1\<rparr>
          else n1)"

definition FollowPathAction_result_callback ::
  "GoalStatus \<Rightarrow> 'p follow_node \<Rightarrow> 'p follow_node" where
  "FollowPathAction_result_callback st n =
     (if st = STATUS_SUCCEEDED then set_status SUCCESS n
      else if st = STATUS_ABORTED then n
      else n)"


section \<open>Poll-worker nodes\<close>

text \<open>
  \<^verbatim>\<open>WaitForLocalizationTF\<close> and \<^verbatim>\<open>GetCurrentPose\<close> keep the flag \<^verbatim>\<open>__thread_running\<close>;
  \<^verbatim>\<open>GetCurrentPose\<close> also has the output slot \<^verbatim>\<open>_pose\<close> (type \<open>'q\<close>, unused by
  \<^verbatim>\<open>WaitForLocalizationTF\<close>).
\<close>

record 'q poll_node = tree_node +
  thread_running :: bool
  pose :: "'q option"

definition WaitForLocalizationTF_on_init :: "'q poll_node \<Rightarrow> 'q poll_node" where
  "WaitForLocalizationTF_on_init n = (set_status SUSPENDED n)\<lparr>thread_running := True\<rparr>"

definition WaitForLocalizationTF_on_timeout :: "'q poll_node \<Rightarrow> 'q poll_node" where
  "WaitForLocalizationTF_on_timeout n =
     set_contingency_message ''NOT_LOCALIZED''
       (set_status FAILURE (n\<lparr>thread_running := False\<rparr>))"

definition GetCurrentPose_on_init :: "'q poll_node \<Rightarrow> 'q poll_node" where
  "GetCurrentPose_on_init n = (set_status SUSPENDED n)\<lparr>thread_running := True\<rparr>"

definition GetCurrentPose_on_timeout :: "'q poll_node \<Rightarrow> 'q poll_node" where
  "GetCurrentPose_on_timeout n =
     set_contingency_message ''CURRENT_POSE_NOT_AVAILABLE''
       (set_status FAILURE (n\<lparr>thread_running := False\<rparr>))"

text \<open>
  The worker threads run concurrently with the tick loop, so the worker is a small-step
  machine over the statements of \<^verbatim>\<open>__worker\<close>, and the timeout handler is another
  event of the same system. The program counter names the statement the worker executes
  next: the test of \<^verbatim>\<open>__thread_running\<close> at the loop head, the lookup, the write of
  SUCCESS, the \<^verbatim>\<open>sleep(0.1)\<close>, and the exit after \<^verbatim>\<open>break\<close>.
\<close>

datatype worker_pc = AtCheck | AtLookup | AtWrite | AtSleep | Exited

text \<open>
  One statement of \<^verbatim>\<open>WaitForLocalizationTF.__worker\<close>. The argument \<open>ok\<close> is what the
  lookup of this iteration gives: \<open>True\<close> when \<^verbatim>\<open>lookup_transform\<close> returns a transform
  within the tolerance of the initial pose, \<open>False\<close> when it is outside or a
  \<^verbatim>\<open>TransformException\<close> is caught.
\<close>

fun WaitForLocalizationTF_worker :: "bool \<Rightarrow> worker_pc \<times> 'q poll_node \<Rightarrow> worker_pc \<times> 'q poll_node" where
  "WaitForLocalizationTF_worker ok (AtCheck, n) =
     (if \<not> thread_running n then (Exited, n) else (AtLookup, n))"
| "WaitForLocalizationTF_worker ok (AtLookup, n) =
     (if ok then (AtWrite, n) else (AtSleep, n))"
| "WaitForLocalizationTF_worker ok (AtWrite, n) = (Exited, set_status SUCCESS n)"
| "WaitForLocalizationTF_worker ok (AtSleep, n) = (AtCheck, n)"
| "WaitForLocalizationTF_worker ok (Exited, n) = (Exited, n)"

text \<open>
  One statement of \<^verbatim>\<open>GetCurrentPose.__worker\<close>. The argument is what
  \<^verbatim>\<open>get_current_pose\<close> returns in this iteration; it is stored in \<^verbatim>\<open>_pose\<close> before
  the test.
\<close>

fun GetCurrentPose_worker :: "'q option \<Rightarrow> worker_pc \<times> 'q poll_node \<Rightarrow> worker_pc \<times> 'q poll_node" where
  "GetCurrentPose_worker r (AtCheck, n) =
     (if \<not> thread_running n then (Exited, n) else (AtLookup, n))"
| "GetCurrentPose_worker r (AtLookup, n) =
     (let n1 = n\<lparr>pose := r\<rparr> in
      if pose n1 \<noteq> None then (AtWrite, n1) else (AtSleep, n1))"
| "GetCurrentPose_worker r (AtWrite, n) = (Exited, set_status SUCCESS n)"
| "GetCurrentPose_worker r (AtSleep, n) = (AtCheck, n)"
| "GetCurrentPose_worker r (Exited, n) = (Exited, n)"

text \<open>
  A schedule is a list of events: the worker executes its next statement (with the lookup
  result of that moment), or the timeout fires and the handler runs.
\<close>

datatype 'o event = WorkerStep 'o | TimeoutFires

fun WaitForLocalizationTF_run ::
  "bool event list \<Rightarrow> worker_pc \<times> 'q poll_node \<Rightarrow> worker_pc \<times> 'q poll_node" where
  "WaitForLocalizationTF_run [] s = s"
| "WaitForLocalizationTF_run (WorkerStep ok # es) s =
     WaitForLocalizationTF_run es (WaitForLocalizationTF_worker ok s)"
| "WaitForLocalizationTF_run (TimeoutFires # es) s =
     WaitForLocalizationTF_run es (fst s, WaitForLocalizationTF_on_timeout (snd s))"

fun GetCurrentPose_run ::
  "'q option event list \<Rightarrow> worker_pc \<times> 'q poll_node \<Rightarrow> worker_pc \<times> 'q poll_node" where
  "GetCurrentPose_run [] s = s"
| "GetCurrentPose_run (WorkerStep r # es) s =
     GetCurrentPose_run es (GetCurrentPose_worker r s)"
| "GetCurrentPose_run (TimeoutFires # es) s =
     GetCurrentPose_run es (fst s, GetCurrentPose_on_timeout (snd s))"

text \<open>
  The invariant of a worker that will not write any more: the flag is cleared, the timeout
  handler has set FAILURE, and the worker is at the loop head, asleep (on its way to the
  loop head) or gone.
\<close>

definition stopped :: "worker_pc \<times> 'q poll_node \<Rightarrow> bool" where
  "stopped s = (\<not> thread_running (snd s) \<and> status (snd s) = FAILURE
                 \<and> (fst s = AtCheck \<or> fst s = AtSleep \<or> fst s = Exited))"


text \<open>
  The invariant of a worker that is still polling: the node is SUSPENDED, the flag is set,
  and the worker is at the loop head, at the lookup or asleep.
\<close>

definition polling :: "worker_pc \<times> 'q poll_node \<Rightarrow> bool" where
  "polling s = (thread_running (snd s) \<and> status (snd s) = SUSPENDED
                 \<and> (fst s = AtCheck \<or> fst s = AtLookup \<or> fst s = AtSleep))"


section \<open>Contingency handlers and the rate-controlled retry wrappers\<close>

text \<open>The node classes of \<^verbatim>\<open>navigation_nodes.py\<close> that are used as child types.\<close>

datatype node_type =
    ComputePathToPoseAction | ComputePathThroughPosesAction
  | ComputePathToPoseActionRateLoop | ComputePathThroughPosesActionRateLoop
  | FollowPathAction | CreateFollowPathFeedback

text \<open>The handler procedures that the wrappers register (bound methods in the source).\<close>

datatype handler = ToPose_handle_path_ok | ThroughPoses_handle_path_ok

text \<open>
  Modelled from the spec: the message pattern of a contingency handler entry, matched
  against the child's contingency message as Python's \<^verbatim>\<open>re.match\<close> does (anchored at the
  start only). The fragment covers literal characters, \<^verbatim>\<open>.\<close> (any character but a newline)
  and the postfix \<^verbatim>\<open>*\<close>, which is what the patterns of the source use.
\<close>

definition re_char :: "char \<Rightarrow> char \<Rightarrow> bool" where
  "re_char c x = (if c = CHR ''.'' then x \<noteq> CHR 0x0A else x = c)"

primrec star_suffixes :: "char \<Rightarrow> string \<Rightarrow> string list" where
  "star_suffixes c [] = [[]]"
| "star_suffixes c (x # xs) = (x # xs) # (if re_char c x then star_suffixes c xs else [])"

fun re_match :: "string \<Rightarrow> string \<Rightarrow> bool" where
  "re_match [] s = True"
| "re_match [c] s = (case s of [] \<Rightarrow> False | x # xs \<Rightarrow> re_char c x)"
| "re_match (c # d # rest) s =
     (if d = CHR ''*'' then list_ex (re_match rest) (star_suffixes c s)
      else (case s of [] \<Rightarrow> False | x # xs \<Rightarrow> re_char c x \<and> re_match (d # rest) xs))"

text \<open>
  Modelled from the spec: a composite node with one current child, as the base class
  \<^verbatim>\<open>RateControlNode\<close> of the two wrappers. It holds the minimum re-trigger interval, its
  binding string, the child's type and binding string (\<^verbatim>\<open>set_child\<close>), the child's current
  status and contingency message, the time of the child's last activation, and the
  contingency handler entries in registration order.
\<close>

type_synonym contingency_entry = "node_type \<times> NodeStatus list \<times> string \<times> handler"

record rate_control_node = tree_node +
  rate_ms :: nat
  params :: string
  child :: "(node_type \<times> string) option"
  child_status :: NodeStatus
  child_message :: string
  last_activation :: "nat option"
  contingency_handlers :: "contingency_entry list"

definition RateControlNode_init :: "nat \<Rightarrow> string \<Rightarrow> rate_control_node" where
  "RateControlNode_init rate ps =
     \<lparr>status = RUNNING, contingency_message = '''', rate_ms = rate, params = ps,
      child = None, child_status = RUNNING, child_message = '''', last_activation = None,
      contingency_handlers = []\<rparr>"

definition set_child :: "node_type \<Rightarrow> string \<Rightarrow> rate_control_node \<Rightarrow> rate_control_node" where
  "set_child t ps w = w\<lparr>child := Some (t, ps)\<rparr>"

definition register_contingency_handler ::
  "node_type \<Rightarrow> NodeStatus list \<Rightarrow> string \<Rightarrow> handler \<Rightarrow> rate_control_node \<Rightarrow> rate_control_node" where
  "register_contingency_handler t sts pat h w =
     w\<lparr>contingency_handlers := contingency_handlers w @ [(t, sts, pat, h)]\<rparr>"

definition set_current_child_status :: "NodeStatus \<Rightarrow> rate_control_node \<Rightarrow> rate_control_node" where
  "set_current_child_status st w = w\<lparr>child_status := st\<rparr>"

text \<open>The constructors and handlers of the two wrappers, as in the source.\<close>

definition ComputePathToPoseActionRateLoop_init :: rate_control_node where
  "ComputePathToPoseActionRateLoop_init =
     register_contingency_handler ComputePathToPoseAction [SUCCESS] ''.*'' ToPose_handle_path_ok
       (set_child ComputePathToPoseAction ''?start ?goal => ?path''
          (RateControlNode_init 1000 ''?start ?goal => ?path''))"

definition ComputePathThroughPosesActionRateLoop_init :: rate_control_node where
  "ComputePathThroughPosesActionRateLoop_init =
     register_contingency_handler ComputePathThroughPosesAction [SUCCESS] ''.*''
         ThroughPoses_handle_path_ok
       (set_child ComputePathThroughPosesAction ''?start ?goals => ?path''
          (RateControlNode_init 1000 ''?start ?goals => ?path''))"

fun run_handler :: "handler \<Rightarrow> rate_control_node \<Rightarrow> rate_control_node" where
  "run_handler ToPose_handle_path_ok w = set_current_child_status RUNNING w"
| "run_handler ThroughPoses_handle_path_ok w = set_current_child_status RUNNING w"

text \<open>
  Modelled from the spec: the dispatch of the registry. The entries are tried in
  registration order; the first one whose child type, trigger statuses and pattern match
  the child fires, and no match leaves the child's status as reported.
\<close>

fun find_handler :: "contingency_entry list \<Rightarrow> node_type \<Rightarrow> NodeStatus \<Rightarrow> string \<Rightarrow> handler option" where
  "find_handler [] t st m = None"
| "find_handler ((t', sts, pat, h) # es) t st m =
     (if t' = t \<and> List.member sts st \<and> re_match pat m then Some h
      else find_handler es t st m)"

definition handle_contingency :: "rate_control_node \<Rightarrow> rate_control_node" where
  "handle_contingency w =
     (case child w of
        None \<Rightarrow> w
      | Some (t, ps) \<Rightarrow>
          (case find_handler (contingency_handlers w) t (child_status w) (child_message w) of
             None \<Rightarrow> w
           | Some h \<Rightarrow> run_handler h w))"

text \<open>
  Modelled from the spec: one tick of the wrapper at time \<open>now\<close> (in milliseconds). When no
  activation is outstanding or the interval has elapsed since the last activation, the child
  is re-initialised and ticked, and \<open>outcome\<close> is the status and message the child reaches in
  this activation. Then the registry is consulted, and the child's status after that decides
  what the wrapper reports: a terminal status of the child is propagated as it is, anything
  else is RUNNING. A wrapper that is already terminal is not ticked again.
\<close>

definition RateControlNode_tick ::
  "nat \<Rightarrow> NodeStatus \<times> string \<Rightarrow> rate_control_node \<Rightarrow> rate_control_node" where
  "RateControlNode_tick now outcome w =
     (if is_terminal (status w) then w
      else
        let due = (case last_activation w of None \<Rightarrow> True | Some t \<Rightarrow> rate_ms w \<le> now - t);
            w1 = (if due then
                    w\<lparr>child_status := fst outcome, child_message := snd outcome,
                      last_activation := Some now\<rparr>
                  else w);
            w2 = handle_contingency w1
        in if is_terminal (child_status w2) then set_status (child_status w2) w2
           else set_status RUNNING w2)"

fun RateControlNode_run ::
  "(nat \<times> NodeStatus \<times> string) list \<Rightarrow> rate_control_node \<Rightarrow> rate_control_node" where
  "RateControlNode_run [] w = w"
| "RateControlNode_run ((now, outcome) # ticks) w =
     RateControlNode_run ticks (RateControlNode_tick now outcome w)"

text \<open>
  Two invariants of a wrapper: it has a child of type \<open>t\<close> and its registry is the one entry
  that the constructor registers; and the wrapper and its child are both RUNNING between
  ticks.
\<close>

definition rate_loop_inv :: "node_type \<Rightarrow> handler \<Rightarrow> rate_control_node \<Rightarrow> bool" where
  "rate_loop_inv t h w =
     ((\<exists>ps. child w = Some (t, ps)) \<and> contingency_handlers w = [(t, [SUCCESS], ''.*'', h)])"

definition rate_loop_running :: "rate_control_node \<Rightarrow> bool" where
  "rate_loop_running w = (status w = RUNNING \<and> child_status w = RUNNING)"


section \<open>Parallel composition nodes\<close>

text \<open>
  Modelled from the spec: the binding string of a node lists its slots separated by blanks;
  the slots before \<^verbatim>\<open>=>\<close> are inputs, those after it are outputs.
\<close>

fun split_blanks :: "string \<Rightarrow> string \<Rightarrow> string list" where
  "split_blanks acc [] = (if acc = [] then [] else [rev acc])"
| "split_blanks acc (c # cs) =
     (if c = CHR '' '' then (if acc = [] then split_blanks [] cs else rev acc # split_blanks [] cs)
      else split_blanks (c # acc) cs)"

definition input_slots :: "string \<Rightarrow> string list" where
  "input_slots ps = takeWhile (\<lambda>w. w \<noteq> ''=>'') (split_blanks [] ps)"

definition output_slots :: "string \<Rightarrow> string list" where
  "output_slots ps = drop 1 (dropWhile (\<lambda>w. w \<noteq> ''=>'') (split_blanks [] ps))"

text \<open>
  Modelled from the spec: the parallel composition node, base class \<^verbatim>\<open>ParallelNode\<close> of
  \<^verbatim>\<open>ApproachPose\<close> and \<^verbatim>\<open>ApproachPoseThroughPoses\<close>. It holds the success threshold, its
  binding string and the ordered list of children (\<^verbatim>\<open>add_child\<close> appends). Its status
  becomes SUCCESS once the number of children with status SUCCESS reaches the threshold; a
  failed child does not make it fail.
\<close>

record parallel_node = tree_node +
  success_threshold :: nat
  par_params :: string
  children :: "(node_type \<times> string) list"

definition ParallelNode_init :: "nat \<Rightarrow> string \<Rightarrow> parallel_node" where
  "ParallelNode_init threshold ps =
     \<lparr>status = RUNNING, contingency_message = '''', success_threshold = threshold,
      par_params = ps, children = []\<rparr>"

definition add_child :: "node_type \<Rightarrow> string \<Rightarrow> parallel_node \<Rightarrow> parallel_node" where
  "add_child t ps n = n\<lparr>children := children n @ [(t, ps)]\<rparr>"

definition ParallelNode_aggregate :: "NodeStatus list \<Rightarrow> parallel_node \<Rightarrow> parallel_node" where
  "ParallelNode_aggregate sts n =
     (if is_terminal (status n) then n
      else if success_threshold n \<le> length (filter (\<lambda>st. st = SUCCESS) sts)
        then set_status SUCCESS n
      else n)"

text \<open>The constructors and \<^verbatim>\<open>on_init\<close> of the two navigation nodes, as in the source.\<close>

definition ApproachPose_init :: parallel_node where
  "ApproachPose_init = ParallelNode_init 1 ''?goal => ?feedback''"

definition ApproachPose_on_init :: "parallel_node \<Rightarrow> parallel_node" where
  "ApproachPose_on_init n =
     add_child CreateFollowPathFeedback ''?path => ?feedback''
       (add_child FollowPathAction ''?path''
          (add_child ComputePathToPoseActionRateLoop ''None ?goal => ?path'' n))"

definition ApproachPoseThroughPoses_init :: parallel_node where
  "ApproachPoseThroughPoses_init = ParallelNode_init 1 ''?goals => ?feedback''"

definition ApproachPoseThroughPoses_on_init :: "parallel_node \<Rightarrow> parallel_node" where
  "ApproachPoseThroughPoses_on_init n =
     add_child CreateFollowPathFeedback ''?path => ?feedback''
       (add_child FollowPathAction ''?path''
          (add_child ComputePathThroughPosesActionRateLoop ''None ?goals => ?path'' n))"


section \<open>The knowledge store\<close>

text \<open>The Python exceptions that the knowledge-store code can meet.\<close>

datatype py_exception =
    AttributeError | RuntimeError | TypeError | SyntaxError | NameError | KeyError | ValueError
  | OSError


text \<open>
  A call with positional arguments: Python compares their number with the parameters of
  the function (without \<^verbatim>\<open>self\<close>) before the body runs, and raises \<^verbatim>\<open>TypeError\<close> when
  they differ.
\<close>

definition call_positional :: "nat \<Rightarrow> 'a list \<Rightarrow> ('a list \<Rightarrow> 'b) \<Rightarrow> py_exception + 'b" where
  "call_positional arity args f = (if length args = arity then Inr (f args) else Inl TypeError)"

subsection \<open>SimpleKb\<close>

text \<open>
  A dictionary is an association list in insertion order, with distinct keys. An entry maps
  field names to values of type \<open>'v\<close>; the store maps uuids to entries.

  The backing file either cannot be opened for reading (there is none, or it is not
  accessible), or holds the JSON text of a dictionary, or holds something that is not a JSON
  document (as a file cut short by a failed write does).
\<close>

type_synonym 'v entry = "(string \<times> 'v) list"

datatype 'v file_state = NoFile | Json "(string \<times> 'v entry) list" | Garbage

text \<open>
  The state of a \<^verbatim>\<open>SimpleKb\<close> is its three fields and the state of the file named
  \<^verbatim>\<open>filename\<close>.
\<close>

record 'v simple_kb =
  filename :: string
  sync_to_file :: bool
  kb_dict :: "(string \<times> 'v entry) list"
  file_contents :: "'v file_state"

text \<open>
  What the code meets outside the object: whether the operating system lets a file name be
  opened for writing, and whether \<^verbatim>\<open>json.dump\<close> can encode a value.
\<close>

record 'v kb_env =
  can_open_w :: "string \<Rightarrow> bool"
  json_ok :: "'v \<Rightarrow> bool"

text \<open>
  \<^verbatim>\<open>open(name, 'w')\<close> raises \<^verbatim>\<open>OSError\<close> for the empty file name and for every name
  that the operating system refuses.
\<close>

definition open_for_writing :: "'v kb_env \<Rightarrow> string \<Rightarrow> py_exception option" where
  "open_for_writing env name = (if name = [] \<or> \<not> can_open_w env name then Some OSError else None)"

text \<open>
  \<^verbatim>\<open>json.dump\<close> raises \<^verbatim>\<open>TypeError\<close> when it meets a value that it cannot encode; the
  keys of the store and of its entries are strings.
\<close>

definition json_dump_error :: "'v kb_env \<Rightarrow> (string \<times> 'v entry) list \<Rightarrow> py_exception option" where
  "json_dump_error env d =
     (if list_all (\<lambda>(uuid, e). list_all (\<lambda>(k, v). json_ok env v) e) d then None
      else Some TypeError)"



text \<open>
  \<^verbatim>\<open>__save\<close>: \<^verbatim>\<open>json.dump(self.__kb_dict, open(self.__filename, 'w'))\<close> when the flag is
  set. The file is opened first; when that fails nothing is written. Opening truncates the
  file, so a dump that fails leaves no JSON document behind. The result is the exception or
  the normal return, and the state after the call.
\<close>

definition SimpleKb__save ::
  "'v kb_env \<Rightarrow> bool \<Rightarrow> 'v simple_kb \<Rightarrow> (py_exception + unit) \<times> 'v simple_kb" where
  "SimpleKb__save env sync kb =
     (if sync then
        (case open_for_writing env (filename kb) of
           Some err \<Rightarrow> (Inl err, kb)
         | None \<Rightarrow>
             (case json_dump_error env (kb_dict kb) of
                Some err \<Rightarrow> (Inl err, kb\<lparr>file_contents := Garbage\<rparr>)
              | None \<Rightarrow> (Inr (), kb\<lparr>file_contents := Json (kb_dict kb)\<rparr>)))
      else (Inr (), kb))"

text \<open>
  The dictionary \<^verbatim>\<open>match\<close> of \<^verbatim>\<open>__get_uuids\<close>: the filter keys that the entry has with an
  equal value.
\<close>

definition filter_match :: "'v entry \<Rightarrow> 'v entry \<Rightarrow> 'v entry" where
  "filter_match flt e =
     map (\<lambda>k. (k, the (map_of e k)))
       (filter (\<lambda>k. map_of e k \<noteq> None \<and> the (map_of flt k) = the (map_of e k)) (map fst flt))"

definition SimpleKb__get_uuids :: "'v entry \<Rightarrow> 'v simple_kb \<Rightarrow> string list" where
  "SimpleKb__get_uuids flt kb =
     map fst (filter (\<lambda>(uuid, e). length flt = length (filter_match flt e)) (kb_dict kb))"

definition SimpleKb_create ::
  "'v kb_env \<Rightarrow> 'v entry \<Rightarrow> string \<Rightarrow> 'v simple_kb \<Rightarrow> (py_exception + unit) \<times> 'v simple_kb" where
  "SimpleKb_create env entry new_uuid kb =
     SimpleKb__save env (sync_to_file kb)
       (kb\<lparr>kb_dict := AList.update new_uuid entry (kb_dict kb)\<rparr>)"

definition SimpleKb_read :: "'v entry \<Rightarrow> 'v simple_kb \<Rightarrow> 'v entry list" where
  "SimpleKb_read flt kb = map (\<lambda>uuid. the (map_of (kb_dict kb) uuid)) (SimpleKb__get_uuids flt kb)"

text \<open>
  \<^verbatim>\<open>self.__kb_dict[uuid][key] = update[key]\<close> for every key of \<^verbatim>\<open>update\<close> and every
  matching uuid; the uuids come from the dictionary itself, so the lookup of \<^verbatim>\<open>uuid\<close>
  finds an entry. The argument \<open>new_uuid\<close> is the string that \<^verbatim>\<open>str(get_uuid())\<close> returns
  in this call; it is used only when nothing matches. The dictionary is changed before
  \<^verbatim>\<open>__save\<close> runs, so it is changed also when \<^verbatim>\<open>__save\<close> raises.
\<close>

definition set_entry_item :: "string \<Rightarrow> string \<Rightarrow> 'v \<Rightarrow> (string \<times> 'v entry) list \<Rightarrow> (string \<times> 'v entry) list" where
  "set_entry_item uuid key v d = AList.map_entry uuid (AList.update key v) d"

definition SimpleKb_update ::
  "'v kb_env \<Rightarrow> 'v entry \<Rightarrow> 'v entry \<Rightarrow> string \<Rightarrow> 'v simple_kb
     \<Rightarrow> (py_exception + unit) \<times> 'v simple_kb" where
  "SimpleKb_update env flt upd new_uuid kb =
     (let uuids = SimpleKb__get_uuids flt kb;
          d = (if length uuids > 0 then
                 foldl (\<lambda>d uuid.
                     foldl (\<lambda>d key. set_entry_item uuid key (the (map_of upd key)) d) d (map fst upd))
                   (kb_dict kb) uuids
               else AList.update new_uuid upd (kb_dict kb))
      in SimpleKb__save env (sync_to_file kb) (kb\<lparr>kb_dict := d\<rparr>))"

text \<open>
  \<^verbatim>\<open>delete\<close> calls \<^verbatim>\<open>__get_uuids\<close>, which has the one parameter \<^verbatim>\<open>filter\<close>, with the
  two arguments \<^verbatim>\<open>keys\<close> and \<^verbatim>\<open>entry\<close>. The result is the exception or the normal
  return, and the state after the call.
\<close>

definition SimpleKb_delete ::
  "'v kb_env \<Rightarrow> 'v entry \<Rightarrow> 'v entry \<Rightarrow> 'v simple_kb \<Rightarrow> (py_exception + unit) \<times> 'v simple_kb" where
  "SimpleKb_delete env keys entry kb =
     (case call_positional 1 [keys, entry] (\<lambda>args. SimpleKb__get_uuids (hd args) kb) of
        Inl err \<Rightarrow> (Inl err, kb)
      | Inr uuids \<Rightarrow>
          SimpleKb__save env (sync_to_file kb)
            (kb\<lparr>kb_dict := foldl (\<lambda>d uuid. AList.delete uuid d) (kb_dict kb) uuids\<rparr>))"

definition SimpleKb_count :: "'v simple_kb \<Rightarrow> nat" where
  "SimpleKb_count kb = length (kb_dict kb)"


text \<open>
  The match of the claims about \<^verbatim>\<open>update\<close>, in their words: every key of the filter is
  present in the entry with an equal value.
\<close>

definition matches_filter :: "'v entry \<Rightarrow> 'v entry \<Rightarrow> bool" where
  "matches_filter flt e = list_all (\<lambda>k. map_of e k = map_of flt k) (map fst flt)"

text \<open>
  What the inner loop of \<^verbatim>\<open>update\<close> does to one entry: it sets every key of \<^verbatim>\<open>update\<close>
  to the value that \<^verbatim>\<open>update\<close> has for it.
\<close>

definition apply_update :: "'v entry \<Rightarrow> 'v entry \<Rightarrow> 'v entry" where
  "apply_update upd e = foldl (\<lambda>e key. AList.update key (the (map_of upd key)) e) e (map fst upd)"

text \<open>
  An example store with three entries, two of which have the field \<^verbatim>\<open>a\<close> equal to 1, and
  an example environment in which every file name but the empty one can be opened for
  writing and every value can be encoded.
\<close>

definition example_kb :: "nat simple_kb" where
  "example_kb =
     \<lparr>filename = ''kb.json'', sync_to_file = True,
      kb_dict = [(''u1'', [(''a'', 1)]), (''u2'', [(''a'', 2)]), (''u3'', [(''c'', 0), (''a'', 1)])],
      file_contents = NoFile\<rparr>"

definition example_env :: "nat kb_env" where
  "example_env = \<lparr>can_open_w = (\<lambda>name. True), json_ok = (\<lambda>v. True)\<rparr>"

subsection \<open>The query relay over the document store\<close>







section \<open>Verified properties\<close>

subsection \<open>Result callbacks of the action nodes\<close>

text \<open>
  Claim C1. In the result callbacks of \<^verbatim>\<open>ComputePathToPoseAction\<close>,
  \<^verbatim>\<open>ComputePathThroughPosesAction\<close> and \<^verbatim>\<open>FollowPathAction\<close>, the external status
  SUCCEEDED sets the node's status to SUCCESS (the planners also store the result's path in
  the output slot and change nothing else), and the external status ABORTED leaves the whole
  node as it was: status, contingency message and path.
\<close>

theorem result_callback_succeeded_aborted:
  "(res_status fut = STATUS_SUCCEEDED \<longrightarrow>
      ComputePathToPoseAction_result_callback fut n = n\<lparr>status := SUCCESS, path := Some (res_path fut)\<rparr>
    \<and> ComputePathThroughPosesAction_result_callback fut n = n\<lparr>status := SUCCESS, path := Some (res_path fut)\<rparr>)
 \<and> (res_status fut = STATUS_ABORTED \<longrightarrow>
      ComputePathToPoseAction_result_callback fut n = n
    \<and> ComputePathThroughPosesAction_result_callback fut n = n)
 \<and> FollowPathAction_result_callback STATUS_SUCCEEDED f = f\<lparr>status := SUCCESS\<rparr>
 \<and> FollowPathAction_result_callback STATUS_ABORTED f = f"
  by (simp add: ComputePathToPoseAction_result_callback_def
      ComputePathThroughPosesAction_result_callback_def
      FollowPathAction_result_callback_def set_status_def)

text \<open>
  The theorem at a suspended planner node: SUCCEEDED makes it SUCCESS with the path
  \<open>[1, 2]\<close>, ABORTED leaves it SUSPENDED.
\<close>

theorem result_callback_witness:
  "res_status \<lparr>res_status = STATUS_SUCCEEDED, res_path = [1::nat, 2]\<rparr> = STATUS_SUCCEEDED
   \<and> status (ComputePathToPoseAction_result_callback \<lparr>res_status = STATUS_SUCCEEDED, res_path = [1::nat, 2]\<rparr>
        \<lparr>status = SUSPENDED, contingency_message = '''', path = None\<rparr>) = SUCCESS
   \<and> path (ComputePathThroughPosesAction_result_callback \<lparr>res_status = STATUS_SUCCEEDED, res_path = [1::nat, 2]\<rparr>
        \<lparr>status = SUSPENDED, contingency_message = '''', path = None\<rparr>) = Some [1, 2]
   \<and> res_status \<lparr>res_status = STATUS_ABORTED, res_path = [1::nat, 2]\<rparr> = STATUS_ABORTED
   \<and> status (ComputePathToPoseAction_result_callback \<lparr>res_status = STATUS_ABORTED, res_path = [1::nat, 2]\<rparr>
        \<lparr>status = SUSPENDED, contingency_message = '''', path = None\<rparr>) = SUSPENDED"
proof -
  let ?n = "\<lparr>status = SUSPENDED, contingency_message = '''', path = (None :: nat list option)\<rparr>"
  let ?f = "\<lparr>status = SUSPENDED, contingency_message = '''', fpath = (None :: nat list option),
              current_path = None, goal_msg = None\<rparr>"
  let ?ok = "\<lparr>res_status = STATUS_SUCCEEDED, res_path = [1::nat, 2]\<rparr>"
  let ?ab = "\<lparr>res_status = STATUS_ABORTED, res_path = [1::nat, 2]\<rparr>"
  have ok: "res_status ?ok = STATUS_SUCCEEDED" and ab: "res_status ?ab = STATUS_ABORTED"
    by simp_all
  from result_callback_succeeded_aborted [of ?ok ?n ?f] ok
  have 1: "ComputePathToPoseAction_result_callback ?ok ?n = ?n\<lparr>status := SUCCESS, path := Some (res_path ?ok)\<rparr>"
    and 2: "ComputePathThroughPosesAction_result_callback ?ok ?n = ?n\<lparr>status := SUCCESS, path := Some (res_path ?ok)\<rparr>"
    by blast+
  from result_callback_succeeded_aborted [of ?ab ?n ?f] ab
  have 3: "ComputePathToPoseAction_result_callback ?ab ?n = ?n"
    by blast
  show ?thesis
    unfolding 1 2 3 by simp
qed

subsection \<open>Timeout handlers of the poll-worker nodes\<close>

text \<open>
  A schedule can be run in two parts. Lookups that fail keep a polling worker polling; a
  worker whose flag is cleared leaves the loop within one iteration, which is at most three
  of its statements, and stays out.
\<close>

lemma WaitForLocalizationTF_run_append:
  "WaitForLocalizationTF_run (es @ fs) s = WaitForLocalizationTF_run fs (WaitForLocalizationTF_run es s)"
proof (induction es arbitrary: s)
  case Nil
  then show ?case by simp
next
  case (Cons e es)
  then show ?case by (cases e) simp_all
qed

lemma GetCurrentPose_run_append:
  "GetCurrentPose_run (es @ fs) s = GetCurrentPose_run fs (GetCurrentPose_run es s)"
proof (induction es arbitrary: s)
  case Nil
  then show ?case by simp
next
  case (Cons e es)
  then show ?case by (cases e) simp_all
qed

lemma WaitForLocalizationTF_worker_polling:
  "polling s \<Longrightarrow> polling (WaitForLocalizationTF_worker False s)"
  by (cases s; cases "fst s") (auto simp add: polling_def)

lemma GetCurrentPose_worker_polling:
  "polling s \<Longrightarrow> polling (GetCurrentPose_worker None s)"
  by (cases s; cases "fst s") (auto simp add: polling_def)

lemma WaitForLocalizationTF_run_polling:
  "polling s \<Longrightarrow> polling (WaitForLocalizationTF_run (replicate k (WorkerStep False)) s)"
  by (induction k arbitrary: s) (simp_all add: WaitForLocalizationTF_worker_polling)

lemma GetCurrentPose_run_polling:
  "polling s \<Longrightarrow> polling (GetCurrentPose_run (replicate k (WorkerStep None)) s)"
  by (induction k arbitrary: s) (simp_all add: GetCurrentPose_worker_polling)

lemma WaitForLocalizationTF_run_exited:
  "WaitForLocalizationTF_run (replicate j (WorkerStep ok)) (Exited, n) = (Exited, n)"
  by (induction j) simp_all

lemma GetCurrentPose_run_exited:
  "GetCurrentPose_run (replicate j (WorkerStep r)) (Exited, n) = (Exited, n)"
  by (induction j) simp_all

lemma WaitForLocalizationTF_worker_exits:
  assumes "pc = AtCheck \<or> pc = AtLookup \<or> pc = AtSleep" and "\<not> thread_running n"
  shows "WaitForLocalizationTF_run (replicate (3 + j) (WorkerStep False)) (pc, n) = (Exited, n)"
proof -
  have r: "replicate (3 + j) (WorkerStep False) =
        WorkerStep False # WorkerStep False # WorkerStep False # replicate j (WorkerStep False)"
    by (simp add: numeral_3_eq_3)
  have e: "WaitForLocalizationTF_run
      (WorkerStep False # WorkerStep False # WorkerStep False # replicate j (WorkerStep False)) (pc, n)
      = (Exited, n)"
    using assms by (auto simp add: WaitForLocalizationTF_run_exited)
  show ?thesis
    unfolding r by (rule e)
qed

lemma GetCurrentPose_worker_exits:
  assumes "pc = AtCheck \<or> pc = AtLookup \<or> pc = AtSleep" and "\<not> thread_running n"
  shows "GetCurrentPose_run (replicate (3 + j) (WorkerStep None)) (pc, n) =
           (Exited, if pc = AtLookup then n\<lparr>pose := None\<rparr> else n)"
proof -
  have r: "replicate (3 + j) (WorkerStep None) =
        WorkerStep None # WorkerStep None # WorkerStep None # replicate j (WorkerStep None)"
    by (simp add: numeral_3_eq_3)
  have e: "GetCurrentPose_run
      (WorkerStep None # WorkerStep None # WorkerStep None # replicate j (WorkerStep None)) (pc, n)
      = (Exited, if pc = AtLookup then n\<lparr>pose := None\<rparr> else n)"
    using assms by (auto simp add: GetCurrentPose_run_exited)
  show ?thesis
    unfolding r by (rule e)
qed

lemma on_init_polling:
  "polling (AtCheck, WaitForLocalizationTF_on_init n)"
  "polling (AtCheck, GetCurrentPose_on_init n)"
  by (simp_all add: polling_def WaitForLocalizationTF_on_init_def GetCurrentPose_on_init_def
      set_status_def)

text \<open>
  Claim C2. The timeout handler of \<^verbatim>\<open>WaitForLocalizationTF\<close> and of \<^verbatim>\<open>GetCurrentPose\<close>
  clears the worker's running flag, sets the status FAILURE and sets the contingency message
  (\<^verbatim>\<open>NOT_LOCALIZED\<close>, \<^verbatim>\<open>CURRENT_POSE_NOT_AVAILABLE\<close>), whatever the node's state was.
  For a node that never completes, that is, whose lookups all fail: after \<^verbatim>\<open>on_init\<close> and
  any number \<open>k\<close> of worker statements the node is still SUSPENDED; when the timeout fires
  then, the worker sees the cleared flag and has left its loop after three more statements
  (and after any number beyond three), and the node is in FAILURE with its message set and
  the flag cleared.
\<close>

theorem on_timeout_fails_and_stops:
  "WaitForLocalizationTF_on_timeout n =
       n\<lparr>status := FAILURE, contingency_message := ''NOT_LOCALIZED'', thread_running := False\<rparr>
 \<and> GetCurrentPose_on_timeout n =
       n\<lparr>status := FAILURE, contingency_message := ''CURRENT_POSE_NOT_AVAILABLE'', thread_running := False\<rparr>
 \<and> status (snd (WaitForLocalizationTF_run (replicate k (WorkerStep False))
        (AtCheck, WaitForLocalizationTF_on_init n))) = SUSPENDED
 \<and> (\<lambda>s. (fst s, status (snd s), contingency_message (snd s), thread_running (snd s)))
      (WaitForLocalizationTF_run
         (replicate k (WorkerStep False) @ TimeoutFires # replicate (3 + j) (WorkerStep False))
         (AtCheck, WaitForLocalizationTF_on_init n))
      = (Exited, FAILURE, ''NOT_LOCALIZED'', False)
 \<and> status (snd (GetCurrentPose_run (replicate k (WorkerStep None))
        (AtCheck, GetCurrentPose_on_init n))) = SUSPENDED
 \<and> (\<lambda>s. (fst s, status (snd s), contingency_message (snd s), thread_running (snd s)))
      (GetCurrentPose_run
         (replicate k (WorkerStep None) @ TimeoutFires # replicate (3 + j) (WorkerStep None))
         (AtCheck, GetCurrentPose_on_init n))
      = (Exited, FAILURE, ''CURRENT_POSE_NOT_AVAILABLE'', False)"
proof -
  have h1: "WaitForLocalizationTF_on_timeout m =
       m\<lparr>status := FAILURE, contingency_message := ''NOT_LOCALIZED'', thread_running := False\<rparr>"
    for m :: "'a poll_node"
    by (simp add: WaitForLocalizationTF_on_timeout_def set_status_def set_contingency_message_def)
  have h2: "GetCurrentPose_on_timeout m =
       m\<lparr>status := FAILURE, contingency_message := ''CURRENT_POSE_NOT_AVAILABLE'', thread_running := False\<rparr>"
    for m :: "'a poll_node"
    by (simp add: GetCurrentPose_on_timeout_def set_status_def set_contingency_message_def)
  obtain pc1 m1 where s1: "WaitForLocalizationTF_run (replicate k (WorkerStep False))
        (AtCheck, WaitForLocalizationTF_on_init n) = (pc1, m1)"
    by (cases "WaitForLocalizationTF_run (replicate k (WorkerStep False))
        (AtCheck, WaitForLocalizationTF_on_init n)")
  have p1: "polling (pc1, m1)"
    using WaitForLocalizationTF_run_polling [OF on_init_polling(1), of k n] by (simp add: s1)
  then have pc1: "pc1 = AtCheck \<or> pc1 = AtLookup \<or> pc1 = AtSleep" and st1: "status m1 = SUSPENDED"
    by (simp_all add: polling_def)
  have e1: "WaitForLocalizationTF_run (replicate (3 + j) (WorkerStep False))
        (pc1, WaitForLocalizationTF_on_timeout m1) = (Exited, WaitForLocalizationTF_on_timeout m1)"
    using pc1 by (rule WaitForLocalizationTF_worker_exits) (simp add: h1)
  have r1: "WaitForLocalizationTF_run
         (replicate k (WorkerStep False) @ TimeoutFires # replicate (3 + j) (WorkerStep False))
         (AtCheck, WaitForLocalizationTF_on_init n) = (Exited, WaitForLocalizationTF_on_timeout m1)"
    by (simp only: WaitForLocalizationTF_run_append s1 WaitForLocalizationTF_run.simps fst_conv
        snd_conv e1)
  obtain pc2 m2 where s2: "GetCurrentPose_run (replicate k (WorkerStep None))
        (AtCheck, GetCurrentPose_on_init n) = (pc2, m2)"
    by (cases "GetCurrentPose_run (replicate k (WorkerStep None))
        (AtCheck, GetCurrentPose_on_init n)")
  have p2: "polling (pc2, m2)"
    using GetCurrentPose_run_polling [OF on_init_polling(2), of k n] by (simp add: s2)
  then have pc2: "pc2 = AtCheck \<or> pc2 = AtLookup \<or> pc2 = AtSleep" and st2: "status m2 = SUSPENDED"
    by (simp_all add: polling_def)
  have e2: "GetCurrentPose_run (replicate (3 + j) (WorkerStep None))
        (pc2, GetCurrentPose_on_timeout m2) =
        (Exited, if pc2 = AtLookup then (GetCurrentPose_on_timeout m2)\<lparr>pose := None\<rparr>
                 else GetCurrentPose_on_timeout m2)"
    using pc2 by (rule GetCurrentPose_worker_exits) (simp add: h2)
  have r2: "GetCurrentPose_run
         (replicate k (WorkerStep None) @ TimeoutFires # replicate (3 + j) (WorkerStep None))
         (AtCheck, GetCurrentPose_on_init n) =
        (Exited, if pc2 = AtLookup then (GetCurrentPose_on_timeout m2)\<lparr>pose := None\<rparr>
                 else GetCurrentPose_on_timeout m2)"
    by (simp only: GetCurrentPose_run_append s2 GetCurrentPose_run.simps fst_conv snd_conv e2)
  show ?thesis
    unfolding s1 s2 r1 r2 using st1 st2 by (simp add: h1 h2)
qed

text \<open>
  The theorem at a worker that has executed two statements when the timeout fires.
\<close>

theorem on_timeout_fails_and_stops_witness:
  "(\<lambda>s. (fst s, status (snd s), contingency_message (snd s), thread_running (snd s)))
      (WaitForLocalizationTF_run
         [WorkerStep False, WorkerStep False, TimeoutFires, WorkerStep False, WorkerStep False,
          WorkerStep False]
         (AtCheck, \<lparr>status = SUSPENDED, contingency_message = '''', thread_running = True,
                    pose = (None :: nat option)\<rparr>))
      = (Exited, FAILURE, ''NOT_LOCALIZED'', False)"
proof -
  have "WaitForLocalizationTF_on_init
          \<lparr>status = RUNNING, contingency_message = '''', thread_running = False, pose = (None :: nat option)\<rparr>
        = \<lparr>status = SUSPENDED, contingency_message = '''', thread_running = True, pose = None\<rparr>"
    by (simp add: WaitForLocalizationTF_on_init_def set_status_def)
  moreover have "replicate 2 (WorkerStep False) @ TimeoutFires # replicate (3 + 0) (WorkerStep False)
        = [WorkerStep False, WorkerStep False, TimeoutFires, WorkerStep False, WorkerStep False,
           WorkerStep False]"
    by (simp add: numeral_2_eq_2 numeral_3_eq_3)
  ultimately show ?thesis
    using on_timeout_fails_and_stops
      [where n = "\<lparr>status = RUNNING, contingency_message = '''', thread_running = False,
                   pose = (None :: nat option)\<rparr>" and k = 2 and j = 0]
    by simp
qed

subsection \<open>The tick of the path follower\<close>

text \<open>
  Claim C5. A tick of \<^verbatim>\<open>FollowPathAction\<close> produces a goal message if and only if the
  path input is not \<^verbatim>\<open>None\<close> and differs from the last path sent. When it does, the
  message carries the path and the last path sent becomes the path; otherwise the goal
  message is \<^verbatim>\<open>None\<close> and the last path sent is unchanged.
\<close>

theorem on_tick_goal:
  "(goal_msg (FollowPathAction_on_tick n) \<noteq> None) = (fpath n \<noteq> None \<and> fpath n \<noteq> current_path n)
 \<and> goal_msg (FollowPathAction_on_tick n) =
      (if fpath n \<noteq> None \<and> fpath n \<noteq> current_path n then Some (Goal (the (fpath n))) else None)
 \<and> current_path (FollowPathAction_on_tick n) =
      (if fpath n \<noteq> None \<and> fpath n \<noteq> current_path n then fpath n else current_path n)"
  by (auto simp add: FollowPathAction_on_tick_def Let_def split: option.splits)

subsection \<open>The poll workers and the timeout\<close>

text \<open>
  Once the invariant \<^const>\<open>stopped\<close> holds, every event keeps it: the worker at the loop
  head sees the cleared flag and exits, and the handler writes FAILURE again.
\<close>

lemma WaitForLocalizationTF_worker_stopped:
  "stopped s \<Longrightarrow> stopped (WaitForLocalizationTF_worker ok s)"
  by (cases s; cases "fst s") (auto simp add: stopped_def)

lemma WaitForLocalizationTF_on_timeout_stopped:
  "stopped s \<Longrightarrow> stopped (fst s, WaitForLocalizationTF_on_timeout (snd s))"
  by (simp add: stopped_def WaitForLocalizationTF_on_timeout_def set_status_def
      set_contingency_message_def)

lemma WaitForLocalizationTF_run_stopped:
  "stopped s \<Longrightarrow> stopped (WaitForLocalizationTF_run es s)"
proof (induction es arbitrary: s)
  case Nil
  then show ?case by simp
next
  case (Cons e es)
  show ?case
  proof (cases e)
    case (WorkerStep ok)
    with Cons show ?thesis
      by (simp add: WaitForLocalizationTF_worker_stopped)
  next
    case TimeoutFires
    with Cons show ?thesis
      by (simp add: WaitForLocalizationTF_on_timeout_stopped)
  qed
qed

lemma GetCurrentPose_worker_stopped:
  "stopped s \<Longrightarrow> stopped (GetCurrentPose_worker r s)"
  by (cases s; cases "fst s") (auto simp add: stopped_def)

lemma GetCurrentPose_on_timeout_stopped:
  "stopped s \<Longrightarrow> stopped (fst s, GetCurrentPose_on_timeout (snd s))"
  by (simp add: stopped_def GetCurrentPose_on_timeout_def set_status_def
      set_contingency_message_def)

lemma GetCurrentPose_run_stopped:
  "stopped s \<Longrightarrow> stopped (GetCurrentPose_run es s)"
proof (induction es arbitrary: s)
  case Nil
  then show ?case by simp
next
  case (Cons e es)
  show ?case
  proof (cases e)
    case (WorkerStep r)
    with Cons show ?thesis
      by (simp add: GetCurrentPose_worker_stopped)
  next
    case TimeoutFires
    with Cons show ?thesis
      by (simp add: GetCurrentPose_on_timeout_stopped)
  qed
qed

text \<open>
  Claim C3, as amended. The worker tests the flag once per iteration, at the loop head. A
  worker that is at the loop head, asleep or gone when the timeout handler runs never writes
  a status afterwards: whatever the schedule and the lookups, the status stays FAILURE.
\<close>

theorem worker_no_write_after_stop_seen:
  assumes "pc = AtCheck \<or> pc = AtSleep \<or> pc = Exited"
  shows "status (snd (WaitForLocalizationTF_run es (pc, WaitForLocalizationTF_on_timeout n))) = FAILURE
       \<and> status (snd (GetCurrentPose_run es' (pc, GetCurrentPose_on_timeout n))) = FAILURE"
proof -
  have "stopped (pc, WaitForLocalizationTF_on_timeout n)"
    using assms by (simp add: stopped_def WaitForLocalizationTF_on_timeout_def set_status_def
        set_contingency_message_def)
  then have 1: "stopped (WaitForLocalizationTF_run es (pc, WaitForLocalizationTF_on_timeout n))"
    by (rule WaitForLocalizationTF_run_stopped)
  have "stopped (pc, GetCurrentPose_on_timeout n)"
    using assms by (simp add: stopped_def GetCurrentPose_on_timeout_def set_status_def
        set_contingency_message_def)
  then have 2: "stopped (GetCurrentPose_run es' (pc, GetCurrentPose_on_timeout n))"
    by (rule GetCurrentPose_run_stopped)
  from 1 2 show ?thesis by (simp add: stopped_def)
qed

text \<open>
  Claim C3, as stated, fails: the flag is not tested again before the write. A worker that
  has passed the test and finished a successful lookup when the timeout fires writes SUCCESS
  over the handler's FAILURE, although the flag is cleared by then.
\<close>

theorem worker_late_success_counterexample:
  "status (snd (WaitForLocalizationTF_run [WorkerStep True, WorkerStep True, TimeoutFires]
      (AtCheck, WaitForLocalizationTF_on_init
         \<lparr>status = RUNNING, contingency_message = '''', thread_running = False, pose = (None :: nat option)\<rparr>))) = FAILURE
 \<and> thread_running (snd (WaitForLocalizationTF_run [WorkerStep True, WorkerStep True, TimeoutFires]
      (AtCheck, WaitForLocalizationTF_on_init
         \<lparr>status = RUNNING, contingency_message = '''', thread_running = False, pose = (None :: nat option)\<rparr>))) = False
 \<and> status (snd (WaitForLocalizationTF_run [WorkerStep True, WorkerStep True, TimeoutFires, WorkerStep True]
      (AtCheck, WaitForLocalizationTF_on_init
         \<lparr>status = RUNNING, contingency_message = '''', thread_running = False, pose = (None :: nat option)\<rparr>))) = SUCCESS
 \<and> status (snd (GetCurrentPose_run [WorkerStep (Some 7), WorkerStep (Some 7), TimeoutFires]
      (AtCheck, GetCurrentPose_on_init
         \<lparr>status = RUNNING, contingency_message = '''', thread_running = False, pose = (None :: nat option)\<rparr>))) = FAILURE
 \<and> status (snd (GetCurrentPose_run [WorkerStep (Some 7), WorkerStep (Some 7), TimeoutFires, WorkerStep (Some 7)]
      (AtCheck, GetCurrentPose_on_init
         \<lparr>status = RUNNING, contingency_message = '''', thread_running = False, pose = (None :: nat option)\<rparr>))) = SUCCESS"
  by (simp add: WaitForLocalizationTF_on_init_def WaitForLocalizationTF_on_timeout_def
      GetCurrentPose_on_init_def GetCurrentPose_on_timeout_def
      set_status_def set_contingency_message_def)

text \<open>The amended claim at a worker that sleeps when the timeout fires.\<close>

theorem worker_no_write_after_stop_seen_witness:
  "status (snd (WaitForLocalizationTF_run [WorkerStep True, WorkerStep True, TimeoutFires, WorkerStep True]
      (AtSleep, WaitForLocalizationTF_on_timeout
         \<lparr>status = SUSPENDED, contingency_message = '''', thread_running = True, pose = (None :: nat option)\<rparr>))) = FAILURE
 \<and> status (snd (GetCurrentPose_run [WorkerStep (Some (7::nat)), WorkerStep (Some 7), WorkerStep (Some 7)]
      (AtSleep, GetCurrentPose_on_timeout
         \<lparr>status = SUSPENDED, contingency_message = '''', thread_running = True, pose = None\<rparr>))) = FAILURE"
  using worker_no_write_after_stop_seen [of AtSleep] by blast

subsection \<open>The rate-controlled retry wrappers\<close>

lemma re_match_dot_star: "re_match ''.*'' m"
  by (cases m) simp_all

lemma find_handler_single:
  "find_handler [(t, [SUCCESS], ''.*'', h)] t SUCCESS m = Some h"
  using re_match_dot_star [of m] by (simp del: re_match.simps)

lemma handle_contingency_success:
  assumes "rate_loop_inv t h w" and "child_status w = SUCCESS"
  shows "handle_contingency w = set_current_child_status RUNNING w"
proof -
  from assms(1) obtain ps where c: "child w = Some (t, ps)"
    and r: "contingency_handlers w = [(t, [SUCCESS], ''.*'', h)]"
    by (auto simp add: rate_loop_inv_def)
  have "handle_contingency w = run_handler h w"
    unfolding handle_contingency_def c r assms(2)
    by (simp add: find_handler_single del: find_handler.simps)
  then show ?thesis
    by (cases h) simp_all
qed

lemma handle_contingency_inv:
  "rate_loop_inv t h w \<Longrightarrow> rate_loop_inv t h (handle_contingency w)"
  by (cases h)
    (auto simp add: rate_loop_inv_def handle_contingency_def set_current_child_status_def
      split: option.splits handler.splits)

lemma RateControlNode_tick_inv:
  "rate_loop_inv t h w \<Longrightarrow> rate_loop_inv t h (RateControlNode_tick now outcome w)"
proof -
  assume inv: "rate_loop_inv t h w"
  have upd: "rate_loop_inv t h (w\<lparr>child_status := a, child_message := b, last_activation := c\<rparr>)"
    for a b c
    using inv by (simp add: rate_loop_inv_def)
  have st: "rate_loop_inv t h (set_status s v)" if "rate_loop_inv t h v" for s v
    using that by (simp add: rate_loop_inv_def set_status_def)
  show ?thesis
    using inv upd
    by (simp add: RateControlNode_tick_def Let_def st handle_contingency_inv)
qed

lemma RateControlNode_run_inv:
  "rate_loop_inv t h w \<Longrightarrow> rate_loop_inv t h (RateControlNode_run ticks w)"
  by (induction ticks arbitrary: w) (auto simp add: RateControlNode_tick_inv)

lemma RateControlNode_tick_success_running:
  assumes inv: "rate_loop_inv t h w" and run: "rate_loop_running w"
  shows "rate_loop_running (RateControlNode_tick now (SUCCESS, m) w)"
proof -
  let ?w1 = "w\<lparr>child_status := SUCCESS, child_message := m, last_activation := Some now\<rparr>"
  have inv1: "rate_loop_inv t h ?w1"
    using inv by (simp add: rate_loop_inv_def)
  have h1: "handle_contingency ?w1 = set_current_child_status RUNNING ?w1"
    by (rule handle_contingency_success [OF inv1]) simp
  have h0: "handle_contingency w = w"
    using inv run
    by (auto simp add: rate_loop_inv_def rate_loop_running_def handle_contingency_def)
  show ?thesis
    using run
    by (simp add: RateControlNode_tick_def Let_def h1 h0 rate_loop_running_def is_terminal_def
        set_current_child_status_def set_status_def)
qed

lemma RateControlNode_run_success_running:
  "rate_loop_inv t h w \<Longrightarrow> rate_loop_running w \<Longrightarrow>
   rate_loop_running (RateControlNode_run (map (\<lambda>(now, m). (now, SUCCESS, m)) ticks) w)"
proof (induction ticks arbitrary: w)
  case Nil
  then show ?case by simp
next
  case (Cons x ticks)
  obtain now m where x: "x = (now, m)" by (cases x)
  show ?case
    unfolding x using Cons.prems
    by (simp add: Cons.IH RateControlNode_tick_inv RateControlNode_tick_success_running)
qed

lemma ToPose_init_inv:
  "rate_loop_inv ComputePathToPoseAction ToPose_handle_path_ok ComputePathToPoseActionRateLoop_init"
  by (simp add: rate_loop_inv_def ComputePathToPoseActionRateLoop_init_def
      register_contingency_handler_def set_child_def RateControlNode_init_def)

lemma ThroughPoses_init_inv:
  "rate_loop_inv ComputePathThroughPosesAction ThroughPoses_handle_path_ok
     ComputePathThroughPosesActionRateLoop_init"
  by (simp add: rate_loop_inv_def ComputePathThroughPosesActionRateLoop_init_def
      register_contingency_handler_def set_child_def RateControlNode_init_def)

lemma init_running:
  "rate_loop_running ComputePathToPoseActionRateLoop_init"
  "rate_loop_running ComputePathThroughPosesActionRateLoop_init"
  by (simp_all add: rate_loop_running_def ComputePathToPoseActionRateLoop_init_def
      ComputePathThroughPosesActionRateLoop_init_def
      register_contingency_handler_def set_child_def RateControlNode_init_def)

text \<open>
  Claim C4. Each wrapper registers at construction one contingency handler, for its child
  type, with the trigger statuses \<open>[SUCCESS]\<close> and the pattern \<^verbatim>\<open>.*\<close>. Whenever the
  child has reached SUCCESS, whatever its message and whatever ticks came before, the
  dispatch runs this handler and the child's status is RUNNING again. For a child that
  succeeds in every activation, the wrapper's status is RUNNING after every sequence of
  ticks at any times: it never reports a terminal status.
\<close>

theorem rate_loop_success_rewritten:
  "contingency_handlers ComputePathToPoseActionRateLoop_init =
      [(ComputePathToPoseAction, [SUCCESS], ''.*'', ToPose_handle_path_ok)]
 \<and> child ComputePathToPoseActionRateLoop_init =
      Some (ComputePathToPoseAction, ''?start ?goal => ?path'')
 \<and> contingency_handlers ComputePathThroughPosesActionRateLoop_init =
      [(ComputePathThroughPosesAction, [SUCCESS], ''.*'', ThroughPoses_handle_path_ok)]
 \<and> child ComputePathThroughPosesActionRateLoop_init =
      Some (ComputePathThroughPosesAction, ''?start ?goals => ?path'')
 \<and> child_status (handle_contingency
      ((RateControlNode_run any ComputePathToPoseActionRateLoop_init)
         \<lparr>child_status := SUCCESS, child_message := m\<rparr>)) = RUNNING
 \<and> child_status (handle_contingency
      ((RateControlNode_run any ComputePathThroughPosesActionRateLoop_init)
         \<lparr>child_status := SUCCESS, child_message := m\<rparr>)) = RUNNING
 \<and> status (RateControlNode_run (map (\<lambda>(now, m). (now, SUCCESS, m)) ticks)
      ComputePathToPoseActionRateLoop_init) = RUNNING
 \<and> status (RateControlNode_run (map (\<lambda>(now, m). (now, SUCCESS, m)) ticks)
      ComputePathThroughPosesActionRateLoop_init) = RUNNING"
proof -
  have reg: "contingency_handlers ComputePathToPoseActionRateLoop_init =
      [(ComputePathToPoseAction, [SUCCESS], ''.*'', ToPose_handle_path_ok)]"
    "child ComputePathToPoseActionRateLoop_init =
      Some (ComputePathToPoseAction, ''?start ?goal => ?path'')"
    "contingency_handlers ComputePathThroughPosesActionRateLoop_init =
      [(ComputePathThroughPosesAction, [SUCCESS], ''.*'', ThroughPoses_handle_path_ok)]"
    "child ComputePathThroughPosesActionRateLoop_init =
      Some (ComputePathThroughPosesAction, ''?start ?goals => ?path'')"
    by (simp_all add: ComputePathToPoseActionRateLoop_init_def
        ComputePathThroughPosesActionRateLoop_init_def
        register_contingency_handler_def set_child_def RateControlNode_init_def)
  have rewrite: "child_status (handle_contingency
      ((RateControlNode_run any w)\<lparr>child_status := SUCCESS, child_message := m\<rparr>)) = RUNNING"
    if "rate_loop_inv t h w" for t h w
  proof -
    have "rate_loop_inv t h (RateControlNode_run any w)"
      using that by (rule RateControlNode_run_inv)
    then have "rate_loop_inv t h
        ((RateControlNode_run any w)\<lparr>child_status := SUCCESS, child_message := m\<rparr>)"
      by (simp add: rate_loop_inv_def)
    then show ?thesis
      by (simp add: handle_contingency_success set_current_child_status_def)
  qed
  have run1: "status (RateControlNode_run (map (\<lambda>(now, m). (now, SUCCESS, m)) ticks)
      ComputePathToPoseActionRateLoop_init) = RUNNING"
    using RateControlNode_run_success_running [OF ToPose_init_inv init_running(1), of ticks]
    by (simp add: rate_loop_running_def)
  have run2: "status (RateControlNode_run (map (\<lambda>(now, m). (now, SUCCESS, m)) ticks)
      ComputePathThroughPosesActionRateLoop_init) = RUNNING"
    using RateControlNode_run_success_running [OF ThroughPoses_init_inv init_running(2), of ticks]
    by (simp add: rate_loop_running_def)
  show ?thesis
    using reg rewrite [OF ToPose_init_inv] rewrite [OF ThroughPoses_init_inv] run1 run2
    by blast
qed

text \<open>
  The theorem at three ticks at 0, 400 and 1000 ms, and at a wrapper whose child failed
  before.
\<close>

theorem rate_loop_success_rewritten_witness:
  "child_status (handle_contingency
      ((RateControlNode_run [(0, FAILURE, ''PLANNER_DOWN'')] ComputePathToPoseActionRateLoop_init)
         \<lparr>child_status := SUCCESS, child_message := ''done''\<rparr>)) = RUNNING
 \<and> status (RateControlNode_run [(0, SUCCESS, ''''), (400, SUCCESS, ''a''), (1000, SUCCESS, ''b'')]
      ComputePathToPoseActionRateLoop_init) = RUNNING
 \<and> status (RateControlNode_run [(0, SUCCESS, ''''), (400, SUCCESS, ''a''), (1000, SUCCESS, ''b'')]
      ComputePathThroughPosesActionRateLoop_init) = RUNNING"
  using rate_loop_success_rewritten
          [where any = "[(0, FAILURE, ''PLANNER_DOWN'')]" and m = "''done''"
             and ticks = "[(0, ''''), (400, ''a''), (1000, ''b'')]"]
  by simp

subsection \<open>The parallel navigation nodes\<close>

lemma filter_success_threshold:
  "(Suc 0 \<le> length (filter (\<lambda>st. st = SUCCESS) sts)) = (SUCCESS \<in> set sts)"
  by (induction sts) auto

text \<open>
  Claim C6. \<^verbatim>\<open>ApproachPose\<close> and \<^verbatim>\<open>ApproachPoseThroughPoses\<close> are constructed with
  the success threshold 1 and no child; \<^verbatim>\<open>on_init\<close> appends exactly three children in
  this order: the replanning loop, the path follower and the feedback generator. The
  loop has \<^verbatim>\<open>?path\<close> as its output slot and the other two have it as input slot. With
  the threshold 1 the node's status becomes SUCCESS as soon as one child is SUCCESS, and
  stays RUNNING otherwise.
\<close>

theorem approach_pose_children:
  "success_threshold ApproachPose_init = 1
 \<and> children ApproachPose_init = []
 \<and> children (ApproachPose_on_init n) = children n @
      [(ComputePathToPoseActionRateLoop, ''None ?goal => ?path''),
       (FollowPathAction, ''?path''),
       (CreateFollowPathFeedback, ''?path => ?feedback'')]
 \<and> success_threshold (ApproachPose_on_init n) = success_threshold n
 \<and> success_threshold ApproachPoseThroughPoses_init = 1
 \<and> children ApproachPoseThroughPoses_init = []
 \<and> children (ApproachPoseThroughPoses_on_init n) = children n @
      [(ComputePathThroughPosesActionRateLoop, ''None ?goals => ?path''),
       (FollowPathAction, ''?path''),
       (CreateFollowPathFeedback, ''?path => ?feedback'')]
 \<and> success_threshold (ApproachPoseThroughPoses_on_init n) = success_threshold n
 \<and> map (\<lambda>c. output_slots (snd c)) (children (ApproachPose_on_init ApproachPose_init)) =
      [[''?path''], [], [''?feedback'']]
 \<and> map (\<lambda>c. input_slots (snd c)) (children (ApproachPose_on_init ApproachPose_init)) =
      [[''None'', ''?goal''], [''?path''], [''?path'']]
 \<and> map (\<lambda>c. output_slots (snd c))
      (children (ApproachPoseThroughPoses_on_init ApproachPoseThroughPoses_init)) =
      [[''?path''], [], [''?feedback'']]
 \<and> map (\<lambda>c. input_slots (snd c))
      (children (ApproachPoseThroughPoses_on_init ApproachPoseThroughPoses_init)) =
      [[''None'', ''?goals''], [''?path''], [''?path'']]
 \<and> status (ParallelNode_aggregate sts (ApproachPose_on_init ApproachPose_init)) =
      (if SUCCESS \<in> set sts then SUCCESS else RUNNING)
 \<and> status (ParallelNode_aggregate sts (ApproachPoseThroughPoses_on_init ApproachPoseThroughPoses_init)) =
      (if SUCCESS \<in> set sts then SUCCESS else RUNNING)"
proof -
  have init: "success_threshold ApproachPose_init = 1" "children ApproachPose_init = []"
    "status ApproachPose_init = RUNNING"
    "success_threshold ApproachPoseThroughPoses_init = 1"
    "children ApproachPoseThroughPoses_init = []"
    "status ApproachPoseThroughPoses_init = RUNNING"
    by (simp_all add: ApproachPose_init_def ApproachPoseThroughPoses_init_def ParallelNode_init_def)
  have on_init: "children (ApproachPose_on_init n) = children n @
      [(ComputePathToPoseActionRateLoop, ''None ?goal => ?path''),
       (FollowPathAction, ''?path''),
       (CreateFollowPathFeedback, ''?path => ?feedback'')]"
    "success_threshold (ApproachPose_on_init n) = success_threshold n"
    "status (ApproachPose_on_init n) = status n"
    "children (ApproachPoseThroughPoses_on_init n) = children n @
      [(ComputePathThroughPosesActionRateLoop, ''None ?goals => ?path''),
       (FollowPathAction, ''?path''),
       (CreateFollowPathFeedback, ''?path => ?feedback'')]"
    "success_threshold (ApproachPoseThroughPoses_on_init n) = success_threshold n"
    "status (ApproachPoseThroughPoses_on_init n) = status n" for n
    by (simp_all add: ApproachPose_on_init_def ApproachPoseThroughPoses_on_init_def add_child_def)
  have slots: "output_slots ''None ?goal => ?path'' = [''?path'']"
    "output_slots ''None ?goals => ?path'' = [''?path'']"
    "output_slots ''?path'' = []"
    "output_slots ''?path => ?feedback'' = [''?feedback'']"
    "input_slots ''None ?goal => ?path'' = [''None'', ''?goal'']"
    "input_slots ''None ?goals => ?path'' = [''None'', ''?goals'']"
    "input_slots ''?path'' = [''?path'']"
    "input_slots ''?path => ?feedback'' = [''?path'']"
    by (simp_all add: output_slots_def input_slots_def)
  have agg: "status (ParallelNode_aggregate sts m) = (if SUCCESS \<in> set sts then SUCCESS else RUNNING)"
    if "status m = RUNNING" "success_threshold m = 1" for m
    using that
    by (simp add: ParallelNode_aggregate_def is_terminal_def set_status_def filter_success_threshold)
  show ?thesis
    by (simp add: init on_init slots agg)
qed

subsection \<open>The query relay\<close>




subsection \<open>SimpleKb: delete and save\<close>

text \<open>
  Claim C8. \<^verbatim>\<open>delete\<close> raises \<^verbatim>\<open>TypeError\<close> for every pair of arguments and every
  store, and the state after the call is the state before it: neither the entries nor the
  backing file change.
\<close>

theorem SimpleKb_delete_raises:
  "SimpleKb_delete env keys entry kb = (Inl TypeError, kb)"
  by (simp add: SimpleKb_delete_def call_positional_def)





subsection \<open>SimpleKb: update\<close>

text \<open>
  The dictionary after \<^verbatim>\<open>__save\<close> is the dictionary before it, whether the write
  succeeds or not.
\<close>

lemma save_keeps_dict: "kb_dict (snd (SimpleKb__save env sync kb)) = kb_dict kb"
  by (simp add: SimpleKb__save_def split: option.splits)

text \<open>
  \<^verbatim>\<open>__get_uuids\<close> compares the size of the filter with the size of \<^verbatim>\<open>match\<close>; this is
  the match of the claim.
\<close>

lemma length_filter_all: "(length xs = length (filter P xs)) = (\<forall>x\<in>set xs. P x)"
proof -
  have "length (filter P xs) + length (filter (\<lambda>x. \<not> P x) xs) = length xs"
    by (rule sum_length_filter_compl)
  then have "(length xs = length (filter P xs)) = (length (filter (\<lambda>x. \<not> P x) xs) = 0)"
    by linarith
  also have "\<dots> = (\<forall>x\<in>set xs. P x)"
    by (simp add: filter_empty_conv)
  finally show ?thesis .
qed

lemma filter_match_length:
  "(length flt = length (filter_match flt e)) = matches_filter flt e"
proof -
  have "(length (map fst flt) = length (filter (\<lambda>k. map_of e k \<noteq> None \<and> the (map_of flt k) = the (map_of e k)) (map fst flt)))
      = (\<forall>k\<in>set (map fst flt). map_of e k \<noteq> None \<and> the (map_of flt k) = the (map_of e k))"
    by (rule length_filter_all)
  moreover have "(map_of e k \<noteq> None \<and> the (map_of flt k) = the (map_of e k)) = (map_of e k = map_of flt k)"
    if "k \<in> set (map fst flt)" for k
  proof -
    from that have "map_of flt k \<noteq> None"
      by (simp add: map_of_eq_None_iff)
    then show ?thesis by auto
  qed
  ultimately show ?thesis
    by (simp add: filter_match_def matches_filter_def list_all_iff)
qed

lemma get_uuids_matches:
  "SimpleKb__get_uuids flt kb = map fst (filter (\<lambda>(uuid, e). matches_filter flt e) (kb_dict kb))"
  by (simp add: SimpleKb__get_uuids_def filter_match_length)

text \<open>
  The two nested loops of \<^verbatim>\<open>update\<close> amount to applying the update to every matching
  entry, in place.
\<close>

lemma map_entry_twice:
  "AList.map_entry u g (AList.map_entry u f d) = AList.map_entry u (\<lambda>e. g (f e)) d"
  by (induction d) auto

lemma set_items_fold:
  "foldl (\<lambda>d key. set_entry_item uuid key (g key) d) (AList.map_entry uuid f d) keys =
   AList.map_entry uuid (\<lambda>e. foldl (\<lambda>e key. AList.update key (g key) e) (f e) keys) d"
proof (induction keys arbitrary: f)
  case Nil
  then show ?case by simp
next
  case (Cons key keys)
  have "set_entry_item uuid key (g key) (AList.map_entry uuid f d) =
        AList.map_entry uuid (\<lambda>e. AList.update key (g key) (f e)) d"
    by (simp add: set_entry_item_def map_entry_twice)
  then show ?case
    using Cons.IH [of "\<lambda>e. AList.update key (g key) (f e)"] by simp
qed

lemma map_entry_id: "AList.map_entry u (\<lambda>e. e) d = d"
  by (induction d) auto

lemma set_items_apply_update:
  "foldl (\<lambda>d key. set_entry_item uuid key (the (map_of upd key)) d) d (map fst upd) =
   AList.map_entry uuid (apply_update upd) d"
proof -
  have "apply_update upd = (\<lambda>e. foldl (\<lambda>e key. AList.update key (the (map_of upd key)) e) e (map fst upd))"
    by (rule ext) (simp add: apply_update_def)
  then show ?thesis
    using set_items_fold [of uuid "\<lambda>key. the (map_of upd key)" "\<lambda>e. e" d "map fst upd"]
    by (simp only: map_entry_id)
qed

lemma map_entry_distinct:
  "distinct (map fst d) \<Longrightarrow>
   AList.map_entry u f d = map (\<lambda>(k, e). if k = u then (k, f e) else (k, e)) d"
proof (induction d)
  case Nil
  then show ?case by simp
next
  case (Cons p d)
  obtain k e where p: "p = (k, e)" by (cases p)
  show ?case
  proof (cases "k = u")
    case True
    with Cons.prems p have "u \<notin> fst ` set d" by auto
    then have "map (\<lambda>(k, e). if k = u then (k, f e) else (k, e)) d = d"
      by (induction d) auto
    with True p show ?thesis by simp
  next
    case False
    with Cons p show ?thesis by simp
  qed
qed

lemma fold_map_entry_distinct:
  "distinct (map fst d) \<Longrightarrow> distinct us \<Longrightarrow>
   foldl (\<lambda>d u. AList.map_entry u f d) d us =
   map (\<lambda>(k, e). if k \<in> set us then (k, f e) else (k, e)) d"
proof (induction us arbitrary: d)
  case Nil
  then show ?case by simp
next
  case (Cons u us)
  let ?d1 = "map (\<lambda>(k, e). if k = u then (k, f e) else (k, e)) d"
  have d1: "AList.map_entry u f d = ?d1"
    using Cons.prems(1) by (rule map_entry_distinct)
  have keys: "map fst ?d1 = map fst d"
    by (induction d) auto
  have "foldl (\<lambda>d u. AList.map_entry u f d) ?d1 us =
        map (\<lambda>(k, e). if k \<in> set us then (k, f e) else (k, e)) ?d1"
  proof (rule Cons.IH)
    show "distinct (map fst ?d1)"
      using Cons.prems(1) by (simp only: keys)
    show "distinct us"
      using Cons.prems(2) by simp
  qed
  also have "\<dots> = map (\<lambda>(k, e). if k \<in> set (u # us) then (k, f e) else (k, e)) d"
    using Cons.prems(2) by (induction d) auto
  finally show ?case by (simp add: d1)
qed

lemma update_fresh: "k \<notin> fst ` set al \<Longrightarrow> AList.update k v al = al @ [(k, v)]"
  by (induction al) auto

lemma apply_update_lookup:
  "map_of (foldl (\<lambda>e key. AList.update key (g key) e) e ks) k =
     (if k \<in> set ks then Some (g k) else map_of e k)"
  by (induction ks arbitrary: e) (auto simp add: AList.update_conv')

lemma apply_update_keys:
  assumes "k \<in> fst ` set upd"
  shows "map_of (apply_update upd e) k = map_of upd k"
proof -
  from assms have "map_of upd k \<noteq> None"
    by (simp add: map_of_eq_None_iff)
  with assms show ?thesis
    by (auto simp add: apply_update_def apply_update_lookup)
qed

lemma update_matching_dict:
  assumes d: "distinct (map fst (kb_dict kb))"
    and some: "SimpleKb__get_uuids flt kb \<noteq> []"
  shows "kb_dict (snd (SimpleKb_update env flt upd new_uuid kb)) =
     map (\<lambda>(u, e). if matches_filter flt e then (u, apply_update upd e) else (u, e)) (kb_dict kb)"
proof -
  let ?us = "SimpleKb__get_uuids flt kb"
  have dus: "distinct ?us"
    unfolding get_uuids_matches using d by (rule distinct_map_filter)
  have mem: "(u \<in> set ?us) = matches_filter flt e" if "(u, e) \<in> set (kb_dict kb)" for u e
  proof
    assume "u \<in> set ?us"
    then obtain e' where e': "(u, e') \<in> set (kb_dict kb)" "matches_filter flt e'"
      by (auto simp add: get_uuids_matches)
    with d that have "e' = e"
      by (meson eq_key_imp_eq_value)
    with e' show "matches_filter flt e" by simp
  next
    assume "matches_filter flt e"
    with that show "u \<in> set ?us"
      by (force simp add: get_uuids_matches)
  qed
  have "kb_dict (snd (SimpleKb_update env flt upd new_uuid kb)) =
        foldl (\<lambda>d uuid. AList.map_entry uuid (apply_update upd) d) (kb_dict kb) ?us"
    using some
    by (simp add: SimpleKb_update_def Let_def save_keeps_dict set_items_apply_update)
  also have "\<dots> = map (\<lambda>(k, e). if k \<in> set ?us then (k, apply_update upd e) else (k, e)) (kb_dict kb)"
    using d dus by (rule fold_map_entry_distinct)
  also have "\<dots> = map (\<lambda>(u, e). if matches_filter flt e then (u, apply_update upd e) else (u, e)) (kb_dict kb)"
    by (rule map_cong) (auto simp add: mem)
  finally show ?thesis .
qed

lemma update_no_match_dict:
  assumes "SimpleKb__get_uuids flt kb = []"
  shows "kb_dict (snd (SimpleKb_update env flt upd new_uuid kb)) = AList.update new_uuid upd (kb_dict kb)"
  using assms by (simp add: SimpleKb_update_def Let_def save_keeps_dict)

lemma get_uuids_empty:
  "(SimpleKb__get_uuids flt kb = []) = (\<forall>(u, e)\<in>set (kb_dict kb). \<not> matches_filter flt e)"
  by (auto simp add: get_uuids_matches filter_empty_conv)

text \<open>
  Claim C9. \<^verbatim>\<open>update\<close> is an upsert on a store whose uuids are distinct (as the keys of a
  dictionary are); the store after the call is meant, whether the write of the file
  succeeds or not. If some entry matches the filter, the number of entries is unchanged and
  every matching entry has each key of the update set to the update's value. If no entry
  matches and the generated uuid is fresh, the store is the old one followed by the update
  mapping under that uuid, and the number of entries grows by exactly one.
\<close>

theorem SimpleKb_update_upsert:
  assumes "distinct (map fst (kb_dict kb))"
  shows "((\<exists>(u, e)\<in>set (kb_dict kb). matches_filter flt e) \<longrightarrow>
            SimpleKb_count (snd (SimpleKb_update env flt upd new_uuid kb)) = SimpleKb_count kb
          \<and> (\<forall>(u, e)\<in>set (kb_dict kb). matches_filter flt e \<longrightarrow>
                (\<exists>e'. map_of (kb_dict (snd (SimpleKb_update env flt upd new_uuid kb))) u = Some e'
                    \<and> (\<forall>k\<in>fst ` set upd. map_of e' k = map_of upd k))))
       \<and> (\<not> (\<exists>(u, e)\<in>set (kb_dict kb). matches_filter flt e)
            \<and> new_uuid \<notin> fst ` set (kb_dict kb) \<longrightarrow>
            kb_dict (snd (SimpleKb_update env flt upd new_uuid kb)) = kb_dict kb @ [(new_uuid, upd)]
          \<and> SimpleKb_count (snd (SimpleKb_update env flt upd new_uuid kb)) = SimpleKb_count kb + 1)"
proof (intro conjI impI)
  assume ex: "\<exists>(u, e)\<in>set (kb_dict kb). matches_filter flt e"
  then have ne: "SimpleKb__get_uuids flt kb \<noteq> []"
    by (auto simp add: get_uuids_empty)
  note dict = update_matching_dict [OF assms ne, of env upd new_uuid]
  show "SimpleKb_count (snd (SimpleKb_update env flt upd new_uuid kb)) = SimpleKb_count kb"
    by (simp add: SimpleKb_count_def dict)
  show "\<forall>(u, e)\<in>set (kb_dict kb). matches_filter flt e \<longrightarrow>
          (\<exists>e'. map_of (kb_dict (snd (SimpleKb_update env flt upd new_uuid kb))) u = Some e'
              \<and> (\<forall>k\<in>fst ` set upd. map_of e' k = map_of upd k))"
  proof (intro ballI, clarify)
    fix u e
    assume in_d: "(u, e) \<in> set (kb_dict kb)" and m: "matches_filter flt e"
    let ?d' = "map (\<lambda>(u, e). if matches_filter flt e then (u, apply_update upd e) else (u, e)) (kb_dict kb)"
    have keys: "map fst ?d' = map fst (kb_dict kb)"
      by (induction "kb_dict kb") (auto simp add: case_prod_beta)
    have "(u, apply_update upd e) \<in> set ?d'"
      using in_d m by force
    moreover have "distinct (map fst ?d')"
      using assms by (simp only: keys)
    ultimately have "map_of ?d' u = Some (apply_update upd e)"
      by (simp only: map_of_eq_Some_iff)
    then show "\<exists>e'. map_of (kb_dict (snd (SimpleKb_update env flt upd new_uuid kb))) u = Some e'
              \<and> (\<forall>k\<in>fst ` set upd. map_of e' k = map_of upd k)"
      by (simp add: dict apply_update_keys)
  qed
next
  assume "\<not> (\<exists>(u, e)\<in>set (kb_dict kb). matches_filter flt e) \<and> new_uuid \<notin> fst ` set (kb_dict kb)"
  then have none: "SimpleKb__get_uuids flt kb = []" and fresh: "new_uuid \<notin> fst ` set (kb_dict kb)"
    by (auto simp add: get_uuids_empty)
  show "kb_dict (snd (SimpleKb_update env flt upd new_uuid kb)) = kb_dict kb @ [(new_uuid, upd)]"
    by (simp add: update_no_match_dict [OF none] update_fresh [OF fresh])
  then show "SimpleKb_count (snd (SimpleKb_update env flt upd new_uuid kb)) = SimpleKb_count kb + 1"
    by (simp add: SimpleKb_count_def)
qed

text \<open>
  The theorem at the example store: a filter that matches two entries, and one that matches
  none.
\<close>

theorem SimpleKb_update_upsert_witness:
  "distinct (map fst (kb_dict example_kb))
 \<and> SimpleKb_count (snd (SimpleKb_update example_env [(''a'', 1)] [(''b'', 2), (''a'', 3)] ''u9'' example_kb)) = 3
 \<and> (\<exists>e'. map_of (kb_dict (snd (SimpleKb_update example_env [(''a'', 1)] [(''b'', 2), (''a'', 3)] ''u9'' example_kb))) ''u3''
        = Some e' \<and> map_of e' ''a'' = Some 3 \<and> map_of e' ''b'' = Some 2)
 \<and> kb_dict (snd (SimpleKb_update example_env [(''a'', 7)] [(''b'', 2)] ''u9'' example_kb)) =
      kb_dict example_kb @ [(''u9'', [(''b'', 2)])]
 \<and> SimpleKb_count (snd (SimpleKb_update example_env [(''a'', 7)] [(''b'', 2)] ''u9'' example_kb)) = 4"
proof -
  have d: "distinct (map fst (kb_dict example_kb))"
    by (simp add: example_kb_def)
  have n: "SimpleKb_count example_kb = 3"
    by (simp add: example_kb_def SimpleKb_count_def)
  have in3: "(''u3'', [(''c'', 0), (''a'', 1)]) \<in> set (kb_dict example_kb)"
    by (simp add: example_kb_def)
  have m3: "matches_filter [(''a'', 1::nat)] [(''c'', 0), (''a'', 1)]"
    by (simp add: matches_filter_def)
  from in3 m3 have ex: "\<exists>(u, e)\<in>set (kb_dict example_kb). matches_filter [(''a'', 1)] e"
    by blast
  have nex: "\<not> (\<exists>(u, e)\<in>set (kb_dict example_kb). matches_filter [(''a'', 7)] e)"
    by (simp add: example_kb_def matches_filter_def)
  have fresh: "''u9'' \<notin> fst ` set (kb_dict example_kb)"
    by (simp add: example_kb_def)
  note hit = SimpleKb_update_upsert [OF d, where env = example_env and flt = "[(''a'', 1)]"
      and upd = "[(''b'', 2), (''a'', 3)]" and new_uuid = "''u9''"]
  note miss = SimpleKb_update_upsert [OF d, where env = example_env and flt = "[(''a'', 7)]"
      and upd = "[(''b'', 2)]" and new_uuid = "''u9''"]
  from hit ex n
  have 1: "SimpleKb_count (snd (SimpleKb_update example_env [(''a'', 1)] [(''b'', 2), (''a'', 3)] ''u9'' example_kb)) = 3"
    by simp
  from hit ex in3 m3
  have "\<exists>e'. map_of (kb_dict (snd (SimpleKb_update example_env [(''a'', 1)] [(''b'', 2), (''a'', 3)] ''u9'' example_kb))) ''u3''
        = Some e' \<and> (\<forall>k\<in>fst ` set [(''b'', 2::nat), (''a'', 3)]. map_of e' k = map_of [(''b'', 2), (''a'', 3)] k)"
    by blast
  then have 2: "\<exists>e'. map_of (kb_dict (snd (SimpleKb_update example_env [(''a'', 1)] [(''b'', 2), (''a'', 3)] ''u9'' example_kb))) ''u3''
        = Some e' \<and> map_of e' ''a'' = Some 3 \<and> map_of e' ''b'' = Some 2"
    by auto
  from miss nex fresh n
  have 3: "kb_dict (snd (SimpleKb_update example_env [(''a'', 7)] [(''b'', 2)] ''u9'' example_kb)) =
      kb_dict example_kb @ [(''u9'', [(''b'', 2)])]"
    and 4: "SimpleKb_count (snd (SimpleKb_update example_env [(''a'', 7)] [(''b'', 2)] ''u9'' example_kb)) = 4"
    by simp_all
  from d 1 2 3 4 show ?thesis by blast
qed

end
